theory Spec2Isabelle
  imports Main "HOL-Library.Char_ord"
begin

section \<open>Sliding puzzle: the core functions of Sliding_puzzle.py\<close>

text \<open>
  A puzzle is a Python \<open>str\<close>, modelled as a \<open>string\<close> (a list of characters); the
  symbols of a puzzle are ASCII (digits, capital letters and the hyphen), so one \<open>char\<close> is
  one Python character. Characters are ordered by code point (\<open>HOL-Library.Char_ord\<close>), the
  order of Python's \<open>sorted\<close> on a string. The argument \<open>tile_to_move\<close> is a Python
  \<open>str\<close> too and is kept a \<open>string\<close>: the code compares it with \<open>"-"\<close> and hands it to
  \<open>str.index\<close>, which searches for a substring. A tile symbol \<open>c\<close> is the string \<open>[c]\<close>.
  Indices and their arithmetic are Python integers, modelled as \<open>int\<close>.
\<close>

subsection \<open>Errors and the Python primitives the code calls\<close>

datatype py_error = ValueError | ZeroDivisionError

definition blank :: char where
  "blank = CHR ''-''"

definition newline :: char where
  "newline = CHR 0x0A"

text \<open>\<open>s.startswith(sub)\<close>, the test \<open>str.index\<close> makes at each position.\<close>

fun startswith :: "string \<Rightarrow> string \<Rightarrow> bool" where
  "startswith s [] = True"
| "startswith [] (y # ys) = False"
| "startswith (x # xs) (y # ys) = (x = y \<and> startswith xs ys)"

text \<open>The lowest position at which \<open>sub\<close> occurs in \<open>s\<close>, if any.\<close>

fun find_sub :: "string \<Rightarrow> string \<Rightarrow> nat option" where
  "find_sub [] sub = (if sub = [] then Some 0 else None)"
| "find_sub (x # xs) sub =
     (if startswith (x # xs) sub then Some 0 else map_option Suc (find_sub xs sub))"

text \<open>\<open>s.index(sub)\<close>: the lowest index of the substring, \<open>ValueError\<close> when it is absent.\<close>

definition str_index :: "string \<Rightarrow> string \<Rightarrow> py_error + nat" where
  "str_index s sub = (case find_sub s sub of None \<Rightarrow> Inl ValueError | Some i \<Rightarrow> Inr i)"

text \<open>
  \<open>int(math.sqrt(n))\<close> and \<open>int(n ** 0.5)\<close> for a length \<open>n\<close>: the integer square root.
  The code goes through a double-precision float; the truncated float root is the integer
  root for every length below \<open>2 ^ 52\<close>, far beyond the lengths 4 to 36 of a puzzle.
\<close>

fun isqrt_aux :: "nat \<Rightarrow> nat \<Rightarrow> nat" where
  "isqrt_aux n 0 = 0"
| "isqrt_aux n (Suc k) = (if Suc k * Suc k \<le> n then Suc k else isqrt_aux n k)"

definition isqrt :: "nat \<Rightarrow> nat" where
  "isqrt n = isqrt_aux n n"

text \<open>\<open>range(i, stop, step)\<close> for a positive step; the zero step is refused by the caller.\<close>

function range_step :: "nat \<Rightarrow> nat \<Rightarrow> nat \<Rightarrow> nat list" where
  "range_step i stop step =
     (if step = 0 \<or> stop \<le> i then [] else i # range_step (i + step) stop step)"
  by pat_completeness auto
termination
  by (relation "measure (\<lambda>(i, stop, step). stop - i)") auto

text \<open>\<open>sep.join(parts)\<close>.\<close>

fun join :: "string \<Rightarrow> string list \<Rightarrow> string" where
  "join sep [] = []"
| "join sep [x] = x"
| "join sep (x # y # ys) = x @ sep @ join sep (y # ys)"

subsection \<open>The functions of the module\<close>

text \<open>
  \<open>rows_from_puzzle\<close>: \<open>size = int(math.sqrt(len(puzzle)))\<close>, the slices
  \<open>puzzle[i:i+size]\<close> for \<open>i in range(0, len(puzzle), size)\<close>, joined by a newline.
  For the empty string \<open>size\<close> is 0 and \<open>range\<close> raises \<open>ValueError\<close>.
\<close>

definition rows_from_puzzle :: "string \<Rightarrow> py_error + string" where
  "rows_from_puzzle puzzle =
     (let size = isqrt (length puzzle) in
      if size = 0 then Inl ValueError
      else Inr (join [newline]
                 (map (\<lambda>i. take size (drop i puzzle)) (range_step 0 (length puzzle) size))))"

text \<open>
  \<open>is_solved\<close>: \<open>sorted_puzzle = ''.join(sorted(puzzle.replace('-', ''))) + '-'\<close>, then
  \<open>puzzle == sorted_puzzle or puzzle == '-' + sorted_puzzle[:-1]\<close>.
\<close>

definition is_solved :: "string \<Rightarrow> bool" where
  "is_solved puzzle =
     (let sorted_puzzle = sort (filter (\<lambda>c. c \<noteq> blank) puzzle) @ [blank] in
      puzzle = sorted_puzzle \<or> puzzle = [blank] @ butlast sorted_puzzle)"

text \<open>
  \<open>is_legal_move\<close>: the blank is refused first; then both lookups, the blank's before the
  tile's, either of which may raise; then the row and column differences. \<open>//\<close> and \<open>%\<close>
  raise on a zero \<open>size\<close>.
\<close>

definition is_legal_move :: "string \<Rightarrow> string \<Rightarrow> py_error + bool" where
  "is_legal_move puzzle tile_to_move =
     (if tile_to_move = [blank] then Inr False
      else
        let size = int (isqrt (length puzzle)) in
        case str_index puzzle [blank] of
          Inl e \<Rightarrow> Inl e
        | Inr empty_idx \<Rightarrow>
            (case str_index puzzle tile_to_move of
               Inl e \<Rightarrow> Inl e
             | Inr tile_idx \<Rightarrow>
                 if size = 0 then Inl ZeroDivisionError
                 else
                   let row_diff = \<bar>int tile_idx div size - int empty_idx div size\<bar>;
                       col_diff = \<bar>int tile_idx mod size - int empty_idx mod size\<bar>
                   in Inr ((row_diff = 1 \<and> col_diff = 0) \<or> (row_diff = 0 \<and> col_diff = 1))))"

text \<open>
  \<open>puzzle_with_move\<close>: the blank returns the puzzle as it is; otherwise both lookups, then
  the tuple assignment on the list of characters: the right-hand side is read first, then
  \<open>puzzle_list[empty_idx]\<close> is written, then \<open>puzzle_list[tile_idx]\<close>. Both indices come
  from a successful lookup in a string that holds the blank, so both are in range. The
  \<open>size\<close> the code computes is not used.
\<close>

definition puzzle_with_move :: "string \<Rightarrow> string \<Rightarrow> py_error + string" where
  "puzzle_with_move puzzle tile_to_move =
     (if tile_to_move = [blank] then Inr puzzle
      else
        case str_index puzzle [blank] of
          Inl e \<Rightarrow> Inl e
        | Inr empty_idx \<Rightarrow>
            (case str_index puzzle tile_to_move of
               Inl e \<Rightarrow> Inl e
             | Inr tile_idx \<Rightarrow>
                 let puzzle_list = puzzle;
                     a = puzzle_list ! tile_idx;
                     b = puzzle_list ! empty_idx
                 in Inr ((puzzle_list[empty_idx := a])[tile_idx := b])))"

text \<open>
  \<open>space_puzzle\<close>: \<open>" " + " ".join(rows_from_puzzle(puzzle))\<close>. The argument of \<open>join\<close> is
  a string, so its parts are the single characters of the rows, newlines included.
\<close>

definition space_puzzle :: "string \<Rightarrow> py_error + string" where
  "space_puzzle puzzle =
     (case rows_from_puzzle puzzle of
        Inl e \<Rightarrow> Inl e
      | Inr rows \<Rightarrow> Inr ('' '' @ join '' '' (map (\<lambda>c. [c]) rows)))"

subsection \<open>The data model\<close>

text \<open>
  A valid puzzle state: its length is the square of an integer from 2 to 6 and it holds
  exactly one blank. The symbols of the data model are the digits, the capital letters
  and the blank.
\<close>

definition valid_puzzle :: "string \<Rightarrow> bool" where
  "valid_puzzle puzzle =
     (length puzzle \<in> {4, 9, 16, 25, 36} \<and> count_list puzzle blank = 1)"

definition is_symbol :: "char \<Rightarrow> bool" where
  "is_symbol c =
     (c = blank \<or> (CHR ''0'' \<le> c \<and> c \<le> CHR ''9'') \<or> (CHR ''A'' \<le> c \<and> c \<le> CHR ''Z''))"

definition symbols_only :: "string \<Rightarrow> bool" where
  "symbols_only puzzle = list_all is_symbol puzzle"

text \<open>The position of the leftmost occurrence of a symbol (the length when it is absent).\<close>

definition first_pos :: "char \<Rightarrow> string \<Rightarrow> nat" where
  "first_pos c puzzle = length (takeWhile (\<lambda>x. x \<noteq> c) puzzle)"

text \<open>
  Orthogonal adjacency of the cells of two indices on a board of side \<open>n\<close>: index \<open>i\<close> is
  in row \<open>i div n\<close> and column \<open>i mod n\<close>; the rows differ by exactly one in the same
  column, or the columns differ by exactly one in the same row.
\<close>

definition adjacent :: "nat \<Rightarrow> nat \<Rightarrow> nat \<Rightarrow> bool" where
  "adjacent n i j =
     (((i div n = Suc (j div n) \<or> j div n = Suc (i div n)) \<and> i mod n = j mod n) \<or>
      ((i mod n = Suc (j mod n) \<or> j mod n = Suc (i mod n)) \<and> i div n = j div n))"

text \<open>Splitting a string back into chunks of a given length.\<close>

function chunks :: "nat \<Rightarrow> string \<Rightarrow> string list" where
  "chunks n xs = (if n = 0 \<or> xs = [] then [] else take n xs # chunks n (drop n xs))"
  by pat_completeness auto
termination
  by (relation "measure (\<lambda>(n, xs). length xs)") auto

text \<open>
  The spaced rendering in the words of the specification: a space before every symbol of
  every row, one more space in front of the first line, rows separated by newlines.
\<close>

definition spaced_spec :: "nat \<Rightarrow> string \<Rightarrow> string" where
  "spaced_spec n puzzle =
     '' '' @ join [newline] (map (\<lambda>row. concat (map (\<lambda>c. [CHR '' '', c]) row)) (chunks n puzzle))"

section \<open>The doctests of the module\<close>

lemma doctest_rows_from_puzzle:
  "rows_from_puzzle ''12345678-'' = Inr (''123'' @ [newline] @ ''456'' @ [newline] @ ''78-'')"
  "rows_from_puzzle ''12-3'' = Inr (''12'' @ [newline] @ ''-3'')"
  "rows_from_puzzle ''123456789ABCDEF-'' =
     Inr (''1234'' @ [newline] @ ''5678'' @ [newline] @ ''9ABC'' @ [newline] @ ''DEF-'')"
  by code_simp+

lemma doctest_is_solved:
  "\<not> is_solved ''13245678-''" "is_solved ''12345678-''" "is_solved ''-12345678''"
  "\<not> is_solved ''321-''" "is_solved ''123-''"
  by code_simp+

lemma doctest_is_legal_move:
  "is_legal_move ''12345678-'' ''8'' = Inr True"
  "is_legal_move ''12345678-'' ''6'' = Inr True"
  "is_legal_move ''12345678-'' ''5'' = Inr False"
  "is_legal_move ''12345678-'' ''-'' = Inr False"
  "is_legal_move ''123456789ABCDEF-'' ''F'' = Inr True"
  "is_legal_move ''123456789ABCDEF-'' ''E'' = Inr False"
  by code_simp+

lemma doctest_puzzle_with_move:
  "puzzle_with_move ''12345678-'' ''8'' = Inr ''1234567-8''"
  "puzzle_with_move ''123-45678'' ''3'' = Inr ''12-345678''"
  "puzzle_with_move ''123456789ABCDEF-'' ''F'' = Inr ''123456789ABCDE-F''"
  "puzzle_with_move ''12-34'' ''2'' = Inr ''1-234''"
  by code_simp+

lemma doctest_space_puzzle:
  "space_puzzle ''12345678-'' =
     Inr ('' 1 2 3 '' @ [newline] @ '' 4 5 6 '' @ [newline] @ '' 7 8 -'')"
  by code_simp

section \<open>Auxiliary facts\<close>

subsection \<open>Lookups, the integer square root, valid states\<close>

lemma startswith_single: "startswith s [c] = (s \<noteq> [] \<and> hd s = c)"
  by (cases s) auto

lemma find_sub_single:
  "find_sub s [c] = (if c \<in> set s then Some (first_pos c s) else None)"
  by (induction s) (auto simp: first_pos_def)

lemma str_index_present: "c \<in> set s \<Longrightarrow> str_index s [c] = Inr (first_pos c s)"
  by (simp add: str_index_def find_sub_single)

lemma str_index_absent: "c \<notin> set s \<Longrightarrow> str_index s [c] = Inl ValueError"
  by (simp add: str_index_def find_sub_single)

lemma first_pos_less: "c \<in> set s \<Longrightarrow> first_pos c s < length s"
  unfolding first_pos_def by (induction s) auto

lemma first_pos_nth: "c \<in> set s \<Longrightarrow> s ! first_pos c s = c"
  unfolding first_pos_def by (induction s) auto

lemma first_pos_before: "k < first_pos c s \<Longrightarrow> s ! k \<noteq> c"
proof (induction s arbitrary: k)
  case Nil then show ?case by (simp add: first_pos_def)
next
  case (Cons x s)
  then show ?case by (cases k) (auto simp: first_pos_def split: if_splits)
qed

lemma first_pos_unique:
  "i < length s \<Longrightarrow> s ! i = c \<Longrightarrow> (\<forall>k<i. s ! k \<noteq> c) \<Longrightarrow> first_pos c s = i"
proof (induction s arbitrary: i)
  case Nil then show ?case by simp
next
  case (Cons x s)
  show ?case
  proof (cases i)
    case 0 with Cons.prems show ?thesis by (simp add: first_pos_def)
  next
    case (Suc j)
    with Cons.prems have "x \<noteq> c" by auto
    moreover from Suc Cons.prems have "first_pos c s = j"
      by (intro Cons.IH) auto
    ultimately show ?thesis using Suc by (simp add: first_pos_def)
  qed
qed

lemma isqrt_aux_square: "n \<le> k \<Longrightarrow> isqrt_aux (n * n) k = n"
proof (induction k)
  case 0 then show ?case by simp
next
  case (Suc k)
  show ?case
  proof (cases "n = Suc k")
    case True then show ?thesis by simp
  next
    case False
    with Suc.prems have le: "n \<le> k" by simp
    then have "n * n < Suc k * Suc k" 
      by (meson le_imp_less_Suc mult_strict_mono' zero_le)
    with Suc.IH[OF le] show ?thesis by simp
  qed
qed

lemma isqrt_square: "isqrt (n * n) = n"
  unfolding isqrt_def by (rule isqrt_aux_square) (cases n; simp)

lemma valid_puzzle_blank: "valid_puzzle p \<Longrightarrow> blank \<in> set p"
  unfolding valid_puzzle_def by (metis count_list_0_iff zero_neq_one)

lemma valid_puzzle_side: "valid_puzzle p \<Longrightarrow> \<exists>n\<in>{2,3,4,5,6}. n * n = length p"
  unfolding valid_puzzle_def by auto

subsection \<open>The blank and the sorted symbols\<close>

lemma count_list_one_unique:
  "count_list xs a = 1 \<Longrightarrow> i < length xs \<Longrightarrow> j < length xs \<Longrightarrow> xs ! i = a \<Longrightarrow> xs ! j = a
   \<Longrightarrow> i = j"
proof (induction xs arbitrary: i j)
  case Nil then show ?case by simp
next
  case (Cons x xs)
  show ?case
  proof (cases "x = a")
    case True
    with Cons.prems(1) have "count_list xs a = 0" by simp
    then have notin: "a \<notin> set xs" by (simp add: count_list_0_iff)
    have "i = 0" using Cons.prems(2,4) notin by (cases i) auto
    moreover have "j = 0" using Cons.prems(3,5) notin by (cases j) auto
    ultimately show ?thesis by simp
  next
    case False
    from False Cons.prems(4) obtain i' where i: "i = Suc i'" by (cases i) auto
    from False Cons.prems(5) obtain j' where j: "j = Suc j'" by (cases j) auto
    have "i' = j'" 
    proof (rule Cons.IH)
      show "count_list xs a = 1" using Cons.prems(1) False by simp
      show "i' < length xs" using Cons.prems(2) i by simp
      show "j' < length xs" using Cons.prems(3) j by simp
      show "xs ! i' = a" using Cons.prems(4) i by simp
      show "xs ! j' = a" using Cons.prems(5) j by simp
    qed
    with i j show ?thesis by simp
  qed
qed

lemma filter_nonblank_id: "a \<notin> set xs \<Longrightarrow> filter (\<lambda>c. c \<noteq> a) xs = xs"
  by (induction xs) auto

lemma is_solved_unfold:
  "is_solved p \<longleftrightarrow>
     p = sort (filter (\<lambda>c. c \<noteq> blank) p) @ [blank] \<or>
     p = [blank] @ sort (filter (\<lambda>c. c \<noteq> blank) p)"
  by (simp add: is_solved_def Let_def)

lemma filter_nonblank_snoc:
  "p = S @ [a] \<Longrightarrow> a \<notin> set S \<Longrightarrow> filter (\<lambda>c. c \<noteq> a) p = S"
  by (simp add: filter_nonblank_id)

lemma filter_nonblank_cons:
  "p = [a] @ S \<Longrightarrow> a \<notin> set S \<Longrightarrow> filter (\<lambda>c. c \<noteq> a) p = S"
  by (simp add: filter_nonblank_id)

lemma blank_notin_sorted: "a \<notin> set (sort (filter (\<lambda>c. c \<noteq> a) p))"
  by simp

lemma solved_end_sorted:
  assumes "p = sort (filter (\<lambda>c. c \<noteq> blank) p) @ [blank]"
  shows "sorted (filter (\<lambda>c. c \<noteq> blank) p) \<and> last p = blank"
proof -
  define S where "S = sort (filter (\<lambda>c. c \<noteq> blank) p)"
  have pS: "p = S @ [blank]" unfolding S_def by (rule assms)
  have "blank \<notin> set S" unfolding S_def by (rule blank_notin_sorted)
  with pS have "filter (\<lambda>c. c \<noteq> blank) p = S" by (rule filter_nonblank_snoc)
  moreover have "sorted S" unfolding S_def by simp
  moreover have "last (S @ [blank]) = blank" by simp
  ultimately show ?thesis using pS by metis
qed

lemma solved_front_sorted:
  assumes "p = [blank] @ sort (filter (\<lambda>c. c \<noteq> blank) p)"
  shows "sorted (filter (\<lambda>c. c \<noteq> blank) p) \<and> hd p = blank"
proof -
  define S where "S = sort (filter (\<lambda>c. c \<noteq> blank) p)"
  have pS: "p = [blank] @ S" unfolding S_def by (rule assms)
  have "blank \<notin> set S" unfolding S_def by (rule blank_notin_sorted)
  with pS have "filter (\<lambda>c. c \<noteq> blank) p = S" by (rule filter_nonblank_cons)
  moreover have "sorted S" unfolding S_def by simp
  moreover have "hd ([blank] @ S) = blank" by simp
  ultimately show ?thesis using pS by metis
qed

lemma one_blank_last:
  assumes "count_list p blank = 1" "p \<noteq> []" "last p = blank"
  shows "p = filter (\<lambda>c. c \<noteq> blank) p @ [blank]"
proof -
  from assms(2,3) obtain xs where p: "p = xs @ [blank]" by (metis append_butlast_last_id)
  with assms(1) have "count_list xs blank = 0" by simp
  then have "blank \<notin> set xs" by (simp add: count_list_0_iff)
  with p have "filter (\<lambda>c. c \<noteq> blank) p = xs" by (rule filter_nonblank_snoc)
  with p show ?thesis by simp
qed

lemma one_blank_hd:
  assumes "count_list p blank = 1" "p \<noteq> []" "hd p = blank"
  shows "p = [blank] @ filter (\<lambda>c. c \<noteq> blank) p"
proof -
  from assms(2,3) obtain xs where p: "p = [blank] @ xs" by (cases p) auto
  with assms(1) have "count_list xs blank = 0" by simp
  then have "blank \<notin> set xs" by (simp add: count_list_0_iff)
  with p have "filter (\<lambda>c. c \<noteq> blank) p = xs" by (rule filter_nonblank_cons)
  with p show ?thesis by simp
qed

subsection \<open>Legality and the exchange for a single symbol\<close>

lemma abs_diff_one: "\<bar>int a - int b\<bar> = 1 \<longleftrightarrow> a = Suc b \<or> b = Suc a"
  by arith

lemma abs_diff_zero: "\<bar>int a - int b\<bar> = 0 \<longleftrightarrow> a = b"
  by arith

lemma adjacent_code:
  "((\<bar>int i div int n - int j div int n\<bar> = 1 \<and> \<bar>int i mod int n - int j mod int n\<bar> = 0) \<or>
    (\<bar>int i div int n - int j div int n\<bar> = 0 \<and> \<bar>int i mod int n - int j mod int n\<bar> = 1))
   = adjacent n i j"
  unfolding zdiv_int[symmetric] zmod_int[symmetric] abs_diff_one abs_diff_zero adjacent_def
  by blast

lemma is_legal_move_single:
  assumes "blank \<in> set p" "c \<in> set p" "c \<noteq> blank" "n * n = length p"
  shows "is_legal_move p [c] = Inr (adjacent n (first_pos c p) (first_pos blank p))"
proof -
  from assms(1) have "p \<noteq> []" by auto
  with assms(4) have n: "n \<noteq> 0" by (cases n) auto
  have sq: "isqrt (length p) = n" using isqrt_square[of n] assms(4) by simp
  let ?i = "first_pos c p" and ?j = "first_pos blank p"
  have "is_legal_move p [c] =
        Inr ((\<bar>int ?i div int n - int ?j div int n\<bar> = 1 \<and> \<bar>int ?i mod int n - int ?j mod int n\<bar> = 0) \<or>
             (\<bar>int ?i div int n - int ?j div int n\<bar> = 0 \<and> \<bar>int ?i mod int n - int ?j mod int n\<bar> = 1))"
    using assms(3) n
    by (simp add: is_legal_move_def sq str_index_present[OF assms(1)]
        str_index_present[OF assms(2)] Let_def)
  then show ?thesis by (simp only: adjacent_code)
qed

lemma puzzle_with_move_single:
  assumes "blank \<in> set p" "c \<in> set p" "c \<noteq> blank"
  shows "puzzle_with_move p [c] = Inr ((p[first_pos blank p := c])[first_pos c p := blank])"
  using assms(3)
  by (simp add: puzzle_with_move_def str_index_present[OF assms(1)]
      str_index_present[OF assms(2)] first_pos_nth[OF assms(1)] first_pos_nth[OF assms(2)] Let_def)

lemma first_pos_distinct:
  assumes "blank \<in> set p" "c \<in> set p" "c \<noteq> blank"
  shows "first_pos c p \<noteq> first_pos blank p"
  using first_pos_nth[OF assms(1)] first_pos_nth[OF assms(2)] assms(3) by metis

lemma first_pos_blank_unique:
  assumes "valid_puzzle p" "j < length p" "p ! j = blank"
  shows "first_pos blank p = j"
proof -
  from assms(1) have one: "count_list p blank = 1" by (simp add: valid_puzzle_def)
  have b: "blank \<in> set p" using assms(1) by (rule valid_puzzle_blank)
  show ?thesis
    using count_list_one_unique[OF one first_pos_less[OF b] assms(2) first_pos_nth[OF b] assms(3)] .
qed

subsection \<open>Ranges, joins and chunks\<close>

lemma range_step_mult:
  assumes "0 < n" "a \<le> m"
  shows "range_step (a * n) (m * n) n = map (\<lambda>k. k * n) [a..<m]"
  using assms(2)
proof (induction "m - a" arbitrary: a)
  case 0
  then have "a = m" by simp
  then show ?case by simp
next
  case (Suc d)
  then have lt: "a < m" and le: "Suc a \<le> m" and d: "d = m - Suc a" by auto
  from lt assms(1) have "a * n < m * n" by simp
  then have "range_step (a * n) (m * n) n = a * n # range_step (Suc a * n) (m * n) n"
    using assms(1) by (simp add: add.commute)
  also have "range_step (Suc a * n) (m * n) n = map (\<lambda>k. k * n) [Suc a..<m]"
    using d le by (rule Suc.hyps(1))
  finally show ?case using lt by (simp add: upt_conv_Cons)
qed

lemma concat_rows_take:
  "concat (map (\<lambda>k. take n (drop (k * n) p)) [0..<m]) = take (m * n) p"
proof (induction m)
  case 0 then show ?case by simp
next
  case (Suc m)
  have "take (m * n) p @ take n (drop (m * n) p) = take (m * n + n) p"
    by (simp add: take_add)
  with Suc show ?case by (simp add: add.commute)
qed

lemma filter_join_newline:
  "\<forall>r\<in>set rows. a \<notin> set r \<Longrightarrow> filter (\<lambda>c. c \<noteq> a) (join [a] rows) = concat rows"
  by (induction "[a]" rows rule: join.induct) (simp_all add: filter_nonblank_id)

lemma chunks_concat:
  "0 < n \<Longrightarrow> \<forall>r\<in>set rows. length r = n \<Longrightarrow> chunks n (concat rows) = rows"
proof (induction rows)
  case Nil then show ?case by simp
next
  case (Cons r rows)
  then have "r \<noteq> []" by auto
  with Cons show ?case by simp
qed

lemma length_join:
  "length (join sep rows) = sum_list (map length rows) + (length rows - 1) * length sep"
  by (induction sep rows rule: join.induct) simp_all

lemma join_nonempty: "rows \<noteq> [] \<Longrightarrow> last rows \<noteq> [] \<Longrightarrow> join sep rows \<noteq> []"
  by (induction sep rows rule: join.induct) (simp_all split: if_splits)

lemma last_join:
  "rows \<noteq> [] \<Longrightarrow> last rows \<noteq> [] \<Longrightarrow> last (join sep rows) = last (last rows)"
proof (induction sep rows rule: join.induct)
  case (3 sep x y ys)
  then have ne: "join sep (y # ys) \<noteq> []" by (intro join_nonempty) simp_all
  from 3 have "last (join sep (y # ys)) = last (last (y # ys))" by simp
  with ne show ?case by simp
qed simp_all

lemma last_concat:
  "rows \<noteq> [] \<Longrightarrow> last rows \<noteq> [] \<Longrightarrow> last (concat rows) = last (last rows)"
  by (induction rows rule: rev_induct) simp_all

lemma newline_not_symbol: "\<not> is_symbol newline"
  by (simp add: is_symbol_def newline_def blank_def)

lemma symbols_only_no_newline: "symbols_only p \<Longrightarrow> newline \<notin> set p"
  using newline_not_symbol by (auto simp: symbols_only_def list_all_iff)

lemma rows_from_puzzle_square:
  assumes "0 < n" "n * n = length p"
  shows "rows_from_puzzle p = Inr (join [newline] (map (\<lambda>k. take n (drop (k * n) p)) [0..<n]))"
proof -
  have sq: "isqrt (length p) = n" using isqrt_square[of n] assms(2) by simp
  have "range_step 0 (length p) n = map (\<lambda>k. k * n) [0..<n]"
    using range_step_mult[OF assms(1), of 0 n] assms(2) by simp
  then show ?thesis using assms(1) by (simp add: rows_from_puzzle_def sq comp_def)
qed

lemma valid_puzzle_side_pos: "valid_puzzle p \<Longrightarrow> n * n = length p \<Longrightarrow> 0 < n"
  by (cases n) (auto simp: valid_puzzle_def)

lemma rows_facts:
  assumes "0 < n" "n * n = length p"
  defines "rows \<equiv> map (\<lambda>k. take n (drop (k * n) p)) [0..<n]"
  shows "length rows = n" "\<forall>k<n. rows ! k = take n (drop (k * n) p)"
    "\<forall>r\<in>set rows. length r = n" "concat rows = p" "chunks n p = rows"
    "\<forall>r\<in>set rows. set r \<subseteq> set p"
proof -
  show "length rows = n" by (simp add: rows_def)
  show "\<forall>k<n. rows ! k = take n (drop (k * n) p)" by (simp add: rows_def)
  show len: "\<forall>r\<in>set rows. length r = n"
  proof
    fix r assume "r \<in> set rows"
    then obtain k where k: "k < n" and r: "r = take n (drop (k * n) p)"
      by (auto simp: rows_def)
    from k have "Suc k * n \<le> n * n" by (metis Suc_leI mult_le_mono1)
    then have "n \<le> length p - k * n" using assms(2) by simp
    with r show "length r = n" by simp
  qed
  show cat: "concat rows = p"
    using concat_rows_take[of n p n] assms(2) by (simp add: rows_def)
  show "chunks n p = rows"
    using chunks_concat[OF assms(1) len] by (simp only: cat)
  show "\<forall>r\<in>set rows. set r \<subseteq> set p"
    by (auto simp: rows_def dest!: in_set_takeD in_set_dropD)
qed


lemma join_singletons:
  "join sep (map (\<lambda>c. [c]) (x # xs)) = x # concat (map (\<lambda>c. sep @ [c]) xs)"
  by (induction xs arbitrary: x) simp_all

lemma space_join_chars:
  "s \<noteq> [] \<Longrightarrow> '' '' @ join '' '' (map (\<lambda>c. [c]) s) = concat (map (\<lambda>c. [CHR '' '', c]) s)"
  by (cases s) (simp_all only: join_singletons, simp_all)

lemma spaced_join_rows:
  "concat (map (\<lambda>c. [a, c]) (join [b] rows)) =
   join [a, b] (map (\<lambda>row. concat (map (\<lambda>c. [a, c]) row)) rows)"
  by (induction "[b]" rows rule: join.induct) simp_all


subsection \<open>Positions in the joined rows\<close>

lemma nth_after_row: "length x = n \<Longrightarrow> (x @ [a] @ J) ! (Suc n + i) = J ! i"
  by (simp add: nth_append)

lemma join_nth_symbol:
  "\<forall>r\<in>set rows. length r = n \<Longrightarrow> k < length rows \<Longrightarrow> m < n
   \<Longrightarrow> join [a] rows ! (k * (n + 1) + m) = rows ! k ! m"
proof (induction "[a]" rows arbitrary: k rule: join.induct)
  case 1 then show ?case by simp
next
  case (2 x) then show ?case by simp
next
  case (3 x y ys)
  from "3.prems"(1) have lx: "length x = n" by simp
  show ?case
  proof (cases k)
    case 0
    with "3.prems"(3) lx show ?thesis by (simp add: nth_append)
  next
    case (Suc k')
    have e: "k * (n + 1) + m = Suc n + (k' * (n + 1) + m)" using Suc by simp
    have "join [a] (x # y # ys) ! (k * (n + 1) + m)
          = (x @ [a] @ join [a] (y # ys)) ! (Suc n + (k' * (n + 1) + m))"
      by (simp only: e join.simps)
    also have "\<dots> = join [a] (y # ys) ! (k' * (n + 1) + m)"
      using lx by (rule nth_after_row)
    also have "\<dots> = (y # ys) ! k' ! m"
      using "3.prems" Suc by (intro "3.hyps") simp_all
    also have "\<dots> = (x # y # ys) ! k ! m" using Suc by simp
    finally show ?thesis .
  qed
qed

lemma join_nth_separator:
  "\<forall>r\<in>set rows. length r = n \<Longrightarrow> Suc k < length rows
   \<Longrightarrow> join [a] rows ! (k * (n + 1) + n) = a"
proof (induction "[a]" rows arbitrary: k rule: join.induct)
  case 1 then show ?case by simp
next
  case (2 x) then show ?case by simp
next
  case (3 x y ys)
  from "3.prems"(1) have lx: "length x = n" by simp
  show ?case
  proof (cases k)
    case 0
    with lx show ?thesis by (simp add: nth_append)
  next
    case (Suc k')
    have e: "k * (n + 1) + n = Suc n + (k' * (n + 1) + n)" using Suc by simp
    have "join [a] (x # y # ys) ! (k * (n + 1) + n)
          = (x @ [a] @ join [a] (y # ys)) ! (Suc n + (k' * (n + 1) + n))"
      by (simp only: e join.simps)
    also have "\<dots> = join [a] (y # ys) ! (k' * (n + 1) + n)"
      using lx by (rule nth_after_row)
    also have "\<dots> = a"
      using "3.prems" Suc by (intro "3.hyps") simp_all
    finally show ?thesis .
  qed
qed

lemma row_nth:
  assumes "n * n = length p" "k < n" "m < n"
  shows "take n (drop (k * n) p) ! m = p ! (k * n + m)"
proof -
  from assms(2) have "Suc k * n \<le> n * n" by (metis Suc_leI mult_le_mono1)
  with assms(1,3) have "k * n + m < length p" by simp
  with assms(3) show ?thesis by simp
qed

subsection \<open>Moving a tile back\<close>

lemma first_pos_le: "k < length s \<Longrightarrow> s ! k = c \<Longrightarrow> first_pos c s \<le> k"
  using first_pos_before[of k c s] by (meson not_le)

lemma swap_back:
  assumes "i < length p" "j < length p" "i \<noteq> j"
  shows "(((p[j := p ! i])[i := p ! j])[i := p ! i])[j := p ! j] = p"
  using assms by (simp add: list_update_swap)


section \<open>Properties of the module\<close>

text \<open>
  C1. For a valid puzzle state, \<open>is_solved\<close> holds exactly when the state is the sorted
  sequence of its non-blank symbols followed by the blank, or the blank followed by that
  sorted sequence; equivalently, when the non-blank symbols are in ascending order as they
  stand and the blank is the first or the last symbol. A state whose blank is at an
  interior position is not solved, whatever the order of the other symbols.
\<close>

theorem is_solved_iff_sorted_blank_at_end:
  assumes "valid_puzzle puzzle"
  shows "(is_solved puzzle \<longleftrightarrow>
            puzzle = sort (filter (\<lambda>c. c \<noteq> blank) puzzle) @ [blank] \<or>
            puzzle = [blank] @ sort (filter (\<lambda>c. c \<noteq> blank) puzzle)) \<and>
         (is_solved puzzle \<longleftrightarrow>
            sorted (filter (\<lambda>c. c \<noteq> blank) puzzle) \<and>
            (hd puzzle = blank \<or> last puzzle = blank)) \<and>
         (\<forall>i. 0 < i \<and> i < length puzzle - 1 \<and> puzzle ! i = blank \<longrightarrow> \<not> is_solved puzzle)"
proof -
  let ?nb = "filter (\<lambda>c. c \<noteq> blank) puzzle"
  from assms have one: "count_list puzzle blank = 1" and ne: "puzzle \<noteq> []"
    by (auto simp: valid_puzzle_def)
  have A: "is_solved puzzle \<longleftrightarrow> puzzle = sort ?nb @ [blank] \<or> puzzle = [blank] @ sort ?nb"
    by (simp add: is_solved_unfold)
  have B1: "sorted ?nb \<and> (hd puzzle = blank \<or> last puzzle = blank)" if "is_solved puzzle"
    using that solved_end_sorted[of puzzle] solved_front_sorted[of puzzle]
    unfolding is_solved_unfold by blast
  have B2: "is_solved puzzle" if s: "sorted ?nb" and e: "hd puzzle = blank \<or> last puzzle = blank"
  proof -
    from s have id: "sort ?nb = ?nb" by (rule sort_key_id_if_sorted[where f="\<lambda>x. x", simplified])
    from e show ?thesis
    proof
      assume "hd puzzle = blank"
      from one_blank_hd[OF one ne this] show ?thesis
        unfolding is_solved_unfold id by simp
    next
      assume "last puzzle = blank"
      from one_blank_last[OF one ne this] show ?thesis
        unfolding is_solved_unfold id by simp
    qed
  qed
  have C: "\<not> is_solved puzzle" if i: "0 < i" "i < length puzzle - 1" "puzzle ! i = blank" for i
  proof
    assume "is_solved puzzle"
    from B1[OF this] have "hd puzzle = blank \<or> last puzzle = blank" by simp
    then show False
    proof
      assume "hd puzzle = blank"
      with ne have "puzzle ! 0 = blank" by (simp add: hd_conv_nth)
      moreover have "0 < length puzzle" "i < length puzzle" using ne i(2) by auto
      ultimately have "0 = i" using one i(3) count_list_one_unique[of puzzle blank 0 i] by simp
      with i(1) show False by simp
    next
      assume "last puzzle = blank"
      with ne have "puzzle ! (length puzzle - 1) = blank" by (simp add: last_conv_nth)
      moreover have "length puzzle - 1 < length puzzle" "i < length puzzle" using ne i(2) by auto
      ultimately have "length puzzle - 1 = i"
        using one i(3) count_list_one_unique[of puzzle blank "length puzzle - 1" i] by simp
      with i(2) show False by simp
    qed
  qed
  have B: "is_solved puzzle \<longleftrightarrow> sorted ?nb \<and> (hd puzzle = blank \<or> last puzzle = blank)"
  proof
    assume "is_solved puzzle"
    then show "sorted ?nb \<and> (hd puzzle = blank \<or> last puzzle = blank)" by (rule B1)
  next
    assume "sorted ?nb \<and> (hd puzzle = blank \<or> last puzzle = blank)"
    then show "is_solved puzzle" using B2 by simp
  qed
  have C': "\<forall>i. 0 < i \<and> i < length puzzle - 1 \<and> puzzle ! i = blank \<longrightarrow> \<not> is_solved puzzle"
  proof (intro allI impI)
    fix i assume "0 < i \<and> i < length puzzle - 1 \<and> puzzle ! i = blank"
    then show "\<not> is_solved puzzle" using C[of i] by simp
  qed
  show ?thesis by (rule conjI[OF A conjI[OF B C']])
qed

theorem is_solved_iff_sorted_blank_at_end_witness:
  "valid_puzzle ''12345678-'' \<and> is_solved ''12345678-'' \<and>
   valid_puzzle ''1234-5678'' \<and> ''1234-5678'' ! 4 = blank \<and>
   sorted (filter (\<lambda>c. c \<noteq> blank) ''1234-5678'') \<and> \<not> is_solved ''1234-5678''"
proof -
  have v1: "valid_puzzle ''12345678-''" by (simp add: valid_puzzle_def blank_def)
  have v2: "valid_puzzle ''1234-5678''" by (simp add: valid_puzzle_def blank_def)
  have b: "''1234-5678'' ! 4 = blank" by (simp add: blank_def)
  have s: "sorted (filter (\<lambda>c. c \<noteq> blank) ''1234-5678'')" by (simp add: blank_def)
  have s1: "sorted (filter (\<lambda>c. c \<noteq> blank) ''12345678-'') \<and>
            (hd ''12345678-'' = blank \<or> last ''12345678-'' = blank)"
    by (simp add: blank_def)
  have i: "0 < (4::nat) \<and> 4 < length ''1234-5678'' - 1 \<and> ''1234-5678'' ! 4 = blank"
    by (simp add: blank_def)
  note t1 = is_solved_iff_sorted_blank_at_end[OF v1]
  note t2 = is_solved_iff_sorted_blank_at_end[OF v2]
  have a1: "is_solved ''12345678-''"
    by (rule iffD2[OF conjunct1[OF conjunct2[OF t1]] s1])
  have a2: "\<not> is_solved ''1234-5678''"
    by (rule mp[OF spec[OF conjunct2[OF conjunct2[OF t2]]] i])
  show ?thesis by (rule conjI[OF v1 conjI[OF a1 conjI[OF v2 conjI[OF b conjI[OF s a2]]]]])
qed

text \<open>
  C2. For a valid puzzle state of side \<open>n\<close> and a symbol that occurs in it,
  \<open>is_legal_move\<close> returns true exactly when the symbol is not the blank and the cell of
  the symbol (row \<open>index div n\<close>, column \<open>index mod n\<close>, at its leftmost occurrence)
  is orthogonally adjacent to the cell of the blank. A legal tile is never in the blank's
  own cell and never differs from it in both row and column. With the blank as the tile
  the answer is false for every state.
\<close>

theorem is_legal_move_iff_adjacent:
  assumes "valid_puzzle puzzle" "c \<in> set puzzle" "n * n = length puzzle"
  shows "is_legal_move puzzle [c] =
           Inr (c \<noteq> blank \<and> adjacent n (first_pos c puzzle) (first_pos blank puzzle)) \<and>
         (is_legal_move puzzle [c] = Inr True \<longrightarrow>
            first_pos c puzzle \<noteq> first_pos blank puzzle \<and>
            \<not> (first_pos c puzzle div n \<noteq> first_pos blank puzzle div n \<and>
               first_pos c puzzle mod n \<noteq> first_pos blank puzzle mod n)) \<and>
         (\<forall>state. is_legal_move state [blank] = Inr False)"
proof -
  let ?i = "first_pos c puzzle" and ?j = "first_pos blank puzzle"
  have b: "blank \<in> set puzzle" using assms(1) by (rule valid_puzzle_blank)
  have blank_case: "is_legal_move state [blank] = Inr False" for state
    by (simp add: is_legal_move_def)
  have A: "is_legal_move puzzle [c] = Inr (c \<noteq> blank \<and> adjacent n ?i ?j)"
  proof (cases "c = blank")
    case True
    then show ?thesis using blank_case[of puzzle] by simp
  next
    case False
    then show ?thesis using is_legal_move_single[OF b assms(2) False assms(3)] by simp
  qed
  have B: "?i \<noteq> ?j \<and> \<not> (?i div n \<noteq> ?j div n \<and> ?i mod n \<noteq> ?j mod n)"
    if "is_legal_move puzzle [c] = Inr True"
  proof -
    from that A have "adjacent n ?i ?j" by simp
    then show ?thesis unfolding adjacent_def by auto
  qed
  have B': "is_legal_move puzzle [c] = Inr True \<longrightarrow>
            ?i \<noteq> ?j \<and> \<not> (?i div n \<noteq> ?j div n \<and> ?i mod n \<noteq> ?j mod n)"
    using B by (rule impI)
  have C: "\<forall>state. is_legal_move state [blank] = Inr False"
    using blank_case by (rule allI)
  show ?thesis by (rule conjI[OF A conjI[OF B' C]])
qed

theorem is_legal_move_iff_adjacent_witness:
  "valid_puzzle ''12345678-'' \<and> CHR ''6'' \<in> set ''12345678-'' \<and>
   (3::nat) * 3 = length ''12345678-'' \<and>
   is_legal_move ''12345678-'' ''6'' = Inr True \<and>
   is_legal_move ''12345678-'' ''6'' =
     Inr (CHR ''6'' \<noteq> blank \<and>
          adjacent 3 (first_pos (CHR ''6'') ''12345678-'') (first_pos blank ''12345678-'')) \<and>
   first_pos (CHR ''6'') ''12345678-'' \<noteq> first_pos blank ''12345678-''"
proof -
  have v: "valid_puzzle ''12345678-''" by (simp add: valid_puzzle_def blank_def)
  have m: "CHR ''6'' \<in> set ''12345678-''" by simp
  have n: "(3::nat) * 3 = length ''12345678-''" by simp
  have l: "is_legal_move ''12345678-'' ''6'' = Inr True" by code_simp
  note t = is_legal_move_iff_adjacent[OF v m n]
  have d: "first_pos (CHR ''6'') ''12345678-'' \<noteq> first_pos blank ''12345678-''"
    by (rule conjunct1[OF mp[OF conjunct1[OF conjunct2[OF t]] l]])
  show ?thesis
    by (rule conjI[OF v conjI[OF m conjI[OF n conjI[OF l conjI[OF conjunct1[OF t] d]]]]])
qed

text \<open>
  C3. For a valid puzzle state and a non-blank symbol that occurs in it,
  \<open>puzzle_with_move\<close> returns a state of the same length in which the position of the
  symbol holds the blank, the position of the blank holds the symbol, and every other
  position holds what it held before.
\<close>

theorem puzzle_with_move_exchanges:
  assumes "valid_puzzle puzzle" "c \<in> set puzzle" "c \<noteq> blank"
  shows "\<exists>new. puzzle_with_move puzzle [c] = Inr new \<and>
           length new = length puzzle \<and>
           puzzle ! first_pos c puzzle = c \<and> puzzle ! first_pos blank puzzle = blank \<and>
           new ! first_pos c puzzle = blank \<and> new ! first_pos blank puzzle = c \<and>
           (\<forall>k<length puzzle. k \<noteq> first_pos c puzzle \<and> k \<noteq> first_pos blank puzzle
                \<longrightarrow> new ! k = puzzle ! k)"
proof -
  let ?i = "first_pos c puzzle" and ?j = "first_pos blank puzzle"
  let ?new = "(puzzle[?j := c])[?i := blank]"
  have b: "blank \<in> set puzzle" using assms(1) by (rule valid_puzzle_blank)
  have ne: "?i \<noteq> ?j" using b assms(2,3) by (rule first_pos_distinct)
  have i: "?i < length puzzle" using assms(2) by (rule first_pos_less)
  have j: "?j < length puzzle" using b by (rule first_pos_less)
  have "puzzle_with_move puzzle [c] = Inr ?new"
    using b assms(2,3) by (rule puzzle_with_move_single)
  moreover have "length ?new = length puzzle" by simp
  moreover have "puzzle ! ?i = c" using assms(2) by (rule first_pos_nth)
  moreover have "puzzle ! ?j = blank" using b by (rule first_pos_nth)
  moreover have "?new ! ?i = blank" using i by simp
  moreover have "?new ! ?j = c" using j ne by simp
  moreover have "\<forall>k<length puzzle. k \<noteq> ?i \<and> k \<noteq> ?j \<longrightarrow> ?new ! k = puzzle ! k"
    by simp
  ultimately show ?thesis by blast
qed

theorem puzzle_with_move_exchanges_witness:
  "valid_puzzle ''12345678-'' \<and> CHR ''8'' \<in> set ''12345678-'' \<and> CHR ''8'' \<noteq> blank \<and>
   (\<exists>new. puzzle_with_move ''12345678-'' ''8'' = Inr new \<and> length new = 9 \<and>
      new ! 7 = blank \<and> new ! 8 = CHR ''8'' \<and> new ! 0 = CHR ''1'')"
proof -
  have v: "valid_puzzle ''12345678-''" by (simp add: valid_puzzle_def blank_def)
  have m: "CHR ''8'' \<in> set ''12345678-''" by simp
  have nb: "CHR ''8'' \<noteq> blank" by (simp add: blank_def)
  have i: "first_pos (CHR ''8'') ''12345678-'' = 7" by (simp add: first_pos_def)
  have j: "first_pos blank ''12345678-'' = 8" by (simp add: first_pos_def blank_def)
  from puzzle_with_move_exchanges[OF v m nb]
  obtain new where new: "puzzle_with_move ''12345678-'' ''8'' = Inr new"
    and len: "length new = length ''12345678-''"
    and ni: "new ! first_pos (CHR ''8'') ''12345678-'' = blank"
    and nj: "new ! first_pos blank ''12345678-'' = CHR ''8''"
    and rest: "\<forall>k<length ''12345678-''. k \<noteq> first_pos (CHR ''8'') ''12345678-'' \<and>
                 k \<noteq> first_pos blank ''12345678-'' \<longrightarrow> new ! k = ''12345678-'' ! k"
    by blast
  have k: "0 < length ''12345678-''" "0 \<noteq> first_pos (CHR ''8'') ''12345678-'' \<and>
           0 \<noteq> first_pos blank ''12345678-''"
    by (simp_all add: i j)
  have "new ! 0 = ''12345678-'' ! 0" using rest k by blast
  then have n0: "new ! 0 = CHR ''1''" by simp
  have "length new = 9" using len by simp
  moreover have "new ! 7 = blank" using ni by (simp only: i)
  moreover have "new ! 8 = CHR ''8''" using nj by (simp only: j)
  ultimately have "\<exists>new. puzzle_with_move ''12345678-'' ''8'' = Inr new \<and> length new = 9 \<and>
      new ! 7 = blank \<and> new ! 8 = CHR ''8'' \<and> new ! 0 = CHR ''1''"
    using new n0 by blast
  with v m nb show ?thesis by (intro conjI)
qed

text \<open>
  C4. For a valid puzzle state of side \<open>n\<close>, \<open>rows_from_puzzle\<close> returns the \<open>n\<close>
  consecutive chunks of \<open>n\<close> symbols, in order, joined by single newlines: the output
  has \<open>n * n + (n - 1)\<close> characters, symbol \<open>m\<close> of row \<open>k\<close> stands at position
  \<open>k * (n + 1) + m\<close>, a newline stands at position \<open>k * (n + 1) + n\<close> after every row
  but the last, and the output ends with the last symbol of the state. Over the symbols
  of the data model (digits, capital letters, the blank), deleting the newlines from the
  output gives back the state, and splitting that into chunks of \<open>n\<close> gives back the
  rows.
\<close>

theorem rows_from_puzzle_chunks_roundtrip:
  assumes "valid_puzzle puzzle" "n * n = length puzzle"
  shows "\<exists>out rows.
           rows_from_puzzle puzzle = Inr out \<and>
           length out = n * n + (n - 1) \<and>
           (\<forall>k<n. \<forall>m<n. out ! (k * (n + 1) + m) = puzzle ! (k * n + m)) \<and>
           (\<forall>k. Suc k < n \<longrightarrow> out ! (k * (n + 1) + n) = newline) \<and>
           last out = last puzzle \<and>
           out = join [newline] rows \<and>
           length rows = n \<and>
           (\<forall>k<n. rows ! k = take n (drop (k * n) puzzle)) \<and>
           (\<forall>r\<in>set rows. length r = n) \<and>
           concat rows = puzzle \<and>
           (symbols_only puzzle \<longrightarrow>
              last out \<noteq> newline \<and>
              filter (\<lambda>c. c \<noteq> newline) out = puzzle \<and>
              chunks n (filter (\<lambda>c. c \<noteq> newline) out) = rows)"
proof -
  define rows where "rows = map (\<lambda>k. take n (drop (k * n) puzzle)) [0..<n]"
  define out where "out = join [newline] rows"
  have n: "0 < n" using assms by (rule valid_puzzle_side_pos)
  note f = rows_facts[OF n assms(2), folded rows_def]
  have A: "rows_from_puzzle puzzle = Inr out"
    unfolding out_def rows_def using n assms(2) by (rule rows_from_puzzle_square)
  have "sum_list (map length rows) = length (concat rows)" by (simp add: length_concat)
  then have "sum_list (map length rows) = n * n" by (simp only: f(4) assms(2))
  then have len: "length out = n * n + (n - 1)"
    by (simp add: out_def length_join f(1))
  have sym: "\<forall>k<n. \<forall>m<n. out ! (k * (n + 1) + m) = puzzle ! (k * n + m)"
  proof (intro allI impI)
    fix k m assume k: "k < n" and m: "m < n"
    have "out ! (k * (n + 1) + m) = rows ! k ! m"
      unfolding out_def using f(3) k m by (intro join_nth_symbol) (simp_all add: f(1))
    also have "rows ! k = take n (drop (k * n) puzzle)" using f(2) k by simp
    also have "take n (drop (k * n) puzzle) ! m = puzzle ! (k * n + m)"
      using assms(2) k m by (rule row_nth)
    finally show "out ! (k * (n + 1) + m) = puzzle ! (k * n + m)" .
  qed
  have sep: "\<forall>k. Suc k < n \<longrightarrow> out ! (k * (n + 1) + n) = newline"
  proof (intro allI impI)
    fix k assume "Suc k < n"
    then show "out ! (k * (n + 1) + n) = newline"
      unfolding out_def using f(3) by (intro join_nth_separator) (simp_all add: f(1))
  qed
  have rne: "rows \<noteq> []" using f(1) n by auto
  then have lr: "last rows \<in> set rows" by simp
  with f(3) n have lne: "last rows \<noteq> []" by auto
  have "last (concat rows) = last (last rows)"
    using rne lne by (rule last_concat)
  then have lst: "last out = last puzzle"
    using last_join[OF rne lne] by (simp add: out_def f(4))
  have R: "last out \<noteq> newline \<and>
           filter (\<lambda>c. c \<noteq> newline) out = puzzle \<and>
           chunks n (filter (\<lambda>c. c \<noteq> newline) out) = rows"
    if so: "symbols_only puzzle"
  proof -
    have nl: "newline \<notin> set puzzle" using so by (rule symbols_only_no_newline)
    then have nlr: "\<forall>r\<in>set rows. newline \<notin> set r" using f(6) by blast
    have flt: "filter (\<lambda>c. c \<noteq> newline) out = puzzle"
      unfolding out_def using filter_join_newline[OF nlr] by (simp only: f(4))
    have chk: "chunks n (filter (\<lambda>c. c \<noteq> newline) out) = rows"
      by (simp only: flt f(5))
    have "puzzle \<noteq> []" using assms(2) n by auto
    then have "last puzzle \<in> set puzzle" by simp
    with nl have "last out \<noteq> newline" unfolding lst by metis
    with flt chk show ?thesis by simp
  qed
  have B: "out = join [newline] rows" by (rule out_def)
  from A len sym sep lst B f(1) f(2) f(3) f(4) R show ?thesis by blast
qed

theorem rows_from_puzzle_chunks_roundtrip_witness:
  "valid_puzzle ''12-3'' \<and> symbols_only ''12-3'' \<and> (2::nat) * 2 = length ''12-3'' \<and>
   (\<exists>out rows. rows_from_puzzle ''12-3'' = Inr out \<and> length out = 5 \<and>
      out ! 0 = CHR ''1'' \<and> out ! 1 = CHR ''2'' \<and> out ! 2 = newline \<and>
      out ! 3 = CHR ''-'' \<and> out ! 4 = CHR ''3'' \<and>
      length rows = 2 \<and> rows ! 0 = ''12'' \<and> rows ! 1 = ''-3'' \<and>
      filter (\<lambda>c. c \<noteq> newline) out = ''12-3'' \<and>
      chunks 2 (filter (\<lambda>c. c \<noteq> newline) out) = rows)"
proof -
  have v: "valid_puzzle ''12-3''" by (simp add: valid_puzzle_def blank_def)
  have s: "symbols_only ''12-3''" by (simp add: symbols_only_def is_symbol_def blank_def)
  have n: "(2::nat) * 2 = length ''12-3''" by simp
  from rows_from_puzzle_chunks_roundtrip[OF v n]
  obtain out rows where r: "rows_from_puzzle ''12-3'' = Inr out"
    "length out = 2 * 2 + (2 - 1)"
    "\<forall>k<2. \<forall>m<2. out ! (k * (2 + 1) + m) = ''12-3'' ! (k * 2 + m)"
    "\<forall>k. Suc k < 2 \<longrightarrow> out ! (k * (2 + 1) + 2) = newline"
    "length rows = 2" "\<forall>k<2. rows ! k = take 2 (drop (k * 2) ''12-3'')"
    "symbols_only ''12-3'' \<longrightarrow>
       last out \<noteq> newline \<and>
       filter (\<lambda>c. c \<noteq> newline) out = ''12-3'' \<and>
       chunks 2 (filter (\<lambda>c. c \<noteq> newline) out) = rows"
    by blast
  from r(7) s have rt: "filter (\<lambda>c. c \<noteq> newline) out = ''12-3''"
    "chunks 2 (filter (\<lambda>c. c \<noteq> newline) out) = rows"
    by blast+
  have len: "length out = 5" using r(2) by simp
  have i: "(0::nat) < 2" "(1::nat) < 2" by simp_all
  have "out ! (0 * (2 + 1) + 0) = ''12-3'' ! (0 * 2 + 0)" using r(3) i by blast
  then have o0: "out ! 0 = CHR ''1''" by simp
  have "out ! (0 * (2 + 1) + 1) = ''12-3'' ! (0 * 2 + 1)" using r(3) i by blast
  then have o1: "out ! 1 = CHR ''2''" by simp
  have "out ! (1 * (2 + 1) + 0) = ''12-3'' ! (1 * 2 + 0)" using r(3) i by blast
  then have o3: "out ! 3 = CHR ''-''" by simp
  have "out ! (1 * (2 + 1) + 1) = ''12-3'' ! (1 * 2 + 1)" using r(3) i by blast
  then have o4: "out ! 4 = CHR ''3''" by simp
  have "Suc 0 < 2 \<longrightarrow> out ! (0 * (2 + 1) + 2) = newline" using r(4) by blast
  then have o2: "out ! 2 = newline" by (simp add: numeral_2_eq_2)
  from r(6) have "rows ! 0 = take 2 (drop (0 * 2) ''12-3'')" by simp
  then have r0: "rows ! 0 = ''12''" by simp
  from r(6) have "rows ! 1 = take 2 (drop (1 * 2) ''12-3'')" by simp
  then have r1: "rows ! 1 = ''-3''" by simp
  from r(1) len o0 o1 o2 o3 o4 r(5) r0 r1 rt
  have "\<exists>out rows. rows_from_puzzle ''12-3'' = Inr out \<and> length out = 5 \<and>
      out ! 0 = CHR ''1'' \<and> out ! 1 = CHR ''2'' \<and> out ! 2 = newline \<and>
      out ! 3 = CHR ''-'' \<and> out ! 4 = CHR ''3'' \<and>
      length rows = 2 \<and> rows ! 0 = ''12'' \<and> rows ! 1 = ''-3'' \<and>
      filter (\<lambda>c. c \<noteq> newline) out = ''12-3'' \<and>
      chunks 2 (filter (\<lambda>c. c \<noteq> newline) out) = rows"
    by blast
  with v s n show ?thesis by (intro conjI)
qed

text \<open>
  C5, as the code has it. For a valid puzzle state and a tile symbol whose move is legal,
  moving the symbol twice gives back the original state exactly when no further copy of
  the symbol stands between its leftmost occurrence and the blank; in particular when the
  symbol occurs only once in the state.
\<close>

theorem puzzle_with_move_self_inverse_iff:
  assumes "valid_puzzle puzzle" "is_legal_move puzzle [c] = Inr True"
  shows "\<exists>new. puzzle_with_move puzzle [c] = Inr new \<and>
           (puzzle_with_move new [c] = Inr puzzle \<longleftrightarrow>
              \<not> (\<exists>k. first_pos c puzzle < k \<and> k < first_pos blank puzzle \<and> puzzle ! k = c)) \<and>
           (count_list puzzle c = 1 \<longrightarrow> puzzle_with_move new [c] = Inr puzzle)"
proof -
  let ?i = "first_pos c puzzle" and ?j = "first_pos blank puzzle"
  define new where "new = (puzzle[?j := c])[?i := blank]"
  have b: "blank \<in> set puzzle" using assms(1) by (rule valid_puzzle_blank)
  have nb: "c \<noteq> blank" using assms(2) by (auto simp: is_legal_move_def)
  have m: "c \<in> set puzzle"
  proof (rule ccontr)
    assume "c \<notin> set puzzle"
    then have "is_legal_move puzzle [c] = Inl ValueError"
      using nb by (simp add: is_legal_move_def str_index_present[OF b] str_index_absent Let_def)
    with assms(2) show False by simp
  qed
  have i: "?i < length puzzle" using m by (rule first_pos_less)
  have j: "?j < length puzzle" using b by (rule first_pos_less)
  have pi: "puzzle ! ?i = c" using m by (rule first_pos_nth)
  have pj: "puzzle ! ?j = blank" using b by (rule first_pos_nth)
  have ne: "?i \<noteq> ?j" using b m nb by (rule first_pos_distinct)
  have only: "k = ?j" if "k < length puzzle" "puzzle ! k = blank" for k
    using first_pos_blank_unique[OF assms(1) that] by simp
  have len: "length new = length puzzle" by (simp add: new_def)
  have ni: "new ! ?i = blank" using i by (simp add: new_def)
  have nj: "new ! ?j = c" using j ne by (simp add: new_def)
  have nk: "new ! k = puzzle ! k" if "k \<noteq> ?i" "k \<noteq> ?j" for k
    using that by (simp add: new_def)
  have A: "puzzle_with_move puzzle [c] = Inr new"
    unfolding new_def using b m nb by (rule puzzle_with_move_single)
  have bn: "blank \<in> set new" using ni i len by (metis nth_mem)
  have mn: "c \<in> set new" using nj j len by (metis nth_mem)
  have fb: "first_pos blank new = ?i"
  proof (rule first_pos_unique)
    show "?i < length new" using i len by simp
    show "new ! ?i = blank" by (rule ni)
    show "\<forall>k<?i. new ! k \<noteq> blank"
    proof (intro allI impI)
      fix k assume k: "k < ?i"
      show "new ! k \<noteq> blank"
      proof (cases "k = ?j")
        case True then show ?thesis using nj nb by simp
      next
        case False
        with k have "new ! k = puzzle ! k" by (intro nk) simp_all
        moreover have "puzzle ! k \<noteq> blank" using only[of k] k i False by auto
        ultimately show ?thesis by simp
      qed
    qed
  qed
  let ?m = "first_pos c new"
  have B: "puzzle_with_move new [c] = Inr ((new[?i := c])[?m := blank])"
    using puzzle_with_move_single[OF bn mn nb] by (simp only: fb)
  have undo: "(new[?i := c])[?j := blank] = puzzle"
    using swap_back[OF i j ne] by (simp add: new_def pi pj)
  have mlen: "?m < length new" using mn by (rule first_pos_less)
  have mle: "?m \<le> ?j" using j len nj by (intro first_pos_le) simp_all
  have C1: "puzzle_with_move new [c] = Inr puzzle"
    if none: "\<not> (\<exists>k. ?i < k \<and> k < ?j \<and> puzzle ! k = c)"
  proof -
    have "?m = ?j"
    proof (rule first_pos_unique)
      show "?j < length new" using j len by simp
      show "new ! ?j = c" by (rule nj)
      show "\<forall>k<?j. new ! k \<noteq> c"
      proof (intro allI impI)
        fix k assume k: "k < ?j"
        show "new ! k \<noteq> c"
        proof (cases "k = ?i")
          case True then show ?thesis using ni nb by simp
        next
          case False
          with k have eq: "new ! k = puzzle ! k" by (intro nk) simp_all
          show ?thesis
          proof (cases "k < ?i")
            case True
            then have "puzzle ! k \<noteq> c" by (rule first_pos_before)
            with eq show ?thesis by simp
          next
            case False
            with \<open>k \<noteq> ?i\<close> have "?i < k" by simp
            with k none have "puzzle ! k \<noteq> c" by blast
            with eq show ?thesis by simp
          qed
        qed
      qed
    qed
    with B undo show ?thesis by simp
  qed
  have C2: "puzzle_with_move new [c] \<noteq> Inr puzzle"
    if some: "\<exists>k. ?i < k \<and> k < ?j \<and> puzzle ! k = c"
  proof -
    from some obtain k where k: "?i < k" "k < ?j" "puzzle ! k = c" by blast
    then have "new ! k = c" using nk[of k] by simp
    moreover have "k < length new" using k(2) j len by simp
    ultimately have "?m \<le> k" by (intro first_pos_le)
    with k(2) have mj: "?m < ?j" by simp
    have "((new[?i := c])[?m := blank]) ! ?m = blank" using mlen by simp
    moreover have "puzzle ! ?m \<noteq> blank" using only[of ?m] mlen len mj by auto
    ultimately have "(new[?i := c])[?m := blank] \<noteq> puzzle" by metis
    with B show ?thesis by simp
  qed
  have C: "puzzle_with_move new [c] = Inr puzzle \<longleftrightarrow>
           \<not> (\<exists>k. ?i < k \<and> k < ?j \<and> puzzle ! k = c)"
    using C1 C2 by blast
  have D: "puzzle_with_move new [c] = Inr puzzle" if one: "count_list puzzle c = 1"
  proof (rule C1, rule notI)
    assume "\<exists>k. ?i < k \<and> k < ?j \<and> puzzle ! k = c"
    then obtain k where k: "?i < k" "k < ?j" "puzzle ! k = c" by blast
    then have "k < length puzzle" using j by simp
    from count_list_one_unique[OF one i this pi k(3)] k(1) show False by simp
  qed
  from A C D show ?thesis by blast
qed

theorem puzzle_with_move_self_inverse_iff_witness:
  "valid_puzzle ''12345678-'' \<and> is_legal_move ''12345678-'' ''8'' = Inr True \<and>
   count_list ''12345678-'' (CHR ''8'') = 1 \<and>
   (\<exists>new. puzzle_with_move ''12345678-'' ''8'' = Inr new \<and>
      puzzle_with_move new ''8'' = Inr ''12345678-'')"
proof -
  have v: "valid_puzzle ''12345678-''" by (simp add: valid_puzzle_def blank_def)
  have l: "is_legal_move ''12345678-'' ''8'' = Inr True" by code_simp
  have one: "count_list ''12345678-'' (CHR ''8'') = 1" by simp
  from puzzle_with_move_self_inverse_iff[OF v l]
  obtain new where "puzzle_with_move ''12345678-'' ''8'' = Inr new"
    and "count_list ''12345678-'' (CHR ''8'') = 1 \<longrightarrow>
         puzzle_with_move new ''8'' = Inr ''12345678-''"
    by blast
  with one have "\<exists>new. puzzle_with_move ''12345678-'' ''8'' = Inr new \<and>
      puzzle_with_move new ''8'' = Inr ''12345678-''" by blast
  with v l one show ?thesis by (intro conjI)
qed

text \<open>
  C5, for every valid state and every legal tile, fails on a state with a repeated symbol:
  in \<open>11-3\<close> the move of \<open>1\<close> is legal (the leftmost \<open>1\<close> is above the blank) and
  gives \<open>-113\<close>; there the leftmost \<open>1\<close> is the other copy, and the second move
  gives \<open>1-13\<close>.
\<close>

theorem puzzle_with_move_twice_counterexample:
  "valid_puzzle ''11-3'' \<and> symbols_only ''11-3'' \<and>
   is_legal_move ''11-3'' ''1'' = Inr True \<and>
   puzzle_with_move ''11-3'' ''1'' = Inr ''-113'' \<and>
   puzzle_with_move ''-113'' ''1'' = Inr ''1-13'' \<and>
   puzzle_with_move ''-113'' ''1'' \<noteq> Inr ''11-3''"
  by code_simp

text \<open>
  C6. For every puzzle state, valid or not, \<open>puzzle_with_move\<close> called with the blank
  marker as the tile to move returns the state it was given, unchanged.
\<close>

theorem puzzle_with_move_blank_noop: "puzzle_with_move puzzle [blank] = Inr puzzle"
  by (simp add: puzzle_with_move_def)

text \<open>
  C7, as the code has it. For a valid puzzle state, \<open>space_puzzle\<close> puts exactly one
  space before every character of the output of \<open>rows_from_puzzle\<close>, the newlines
  included: every row is rendered with one space before each of its symbols, the rows are
  separated by a space followed by a newline, and the first line has no further leading
  space.
\<close>

theorem space_puzzle_spaces_every_character:
  assumes "valid_puzzle puzzle" "n * n = length puzzle"
  shows "(\<exists>out. rows_from_puzzle puzzle = Inr out \<and>
            space_puzzle puzzle = Inr (concat (map (\<lambda>c. [CHR '' '', c]) out))) \<and>
         space_puzzle puzzle =
           Inr (join ('' '' @ [newline])
                 (map (\<lambda>row. concat (map (\<lambda>c. [CHR '' '', c]) row)) (chunks n puzzle)))"
proof -
  define rows where "rows = map (\<lambda>k. take n (drop (k * n) puzzle)) [0..<n]"
  have n: "0 < n" using assms by (rule valid_puzzle_side_pos)
  note f = rows_facts[OF n assms(2), folded rows_def]
  have A: "rows_from_puzzle puzzle = Inr (join [newline] rows)"
    unfolding rows_def using n assms(2) by (rule rows_from_puzzle_square)
  have rne: "rows \<noteq> []" using f(1) n by auto
  then have "last rows \<in> set rows" by simp
  with f(3) n have "last rows \<noteq> []" by auto
  with rne have ne: "join [newline] rows \<noteq> []" by (rule join_nonempty)
  have B: "space_puzzle puzzle = Inr (concat (map (\<lambda>c. [CHR '' '', c]) (join [newline] rows)))"
    using space_join_chars[OF ne] by (simp add: space_puzzle_def A)
  have C: "space_puzzle puzzle =
           Inr (join ('' '' @ [newline])
                 (map (\<lambda>row. concat (map (\<lambda>c. [CHR '' '', c]) row)) (chunks n puzzle)))"
    using B by (simp only: spaced_join_rows f(5) append.simps)
  from A B C show ?thesis by blast
qed

theorem space_puzzle_spaces_every_character_witness:
  "valid_puzzle ''12-3'' \<and> (2::nat) * 2 = length ''12-3'' \<and>
   space_puzzle ''12-3'' =
     Inr (join ('' '' @ [newline])
           (map (\<lambda>row. concat (map (\<lambda>c. [CHR '' '', c]) row)) (chunks 2 ''12-3'')))"
proof -
  have v: "valid_puzzle ''12-3''" by (simp add: valid_puzzle_def blank_def)
  have n: "(2::nat) * 2 = length ''12-3''" by simp
  show ?thesis
    by (rule conjI[OF v conjI[OF n conjunct2[OF space_puzzle_spaces_every_character[OF v n]]]])
qed

text \<open>
  C7, as the specification words it (\<open>spaced_spec\<close>: one more leading space on the first
  line, rows separated by a bare newline), fails on the doctest input \<open>12345678-\<close>.
\<close>

theorem space_puzzle_extra_leading_space_counterexample:
  "valid_puzzle ''12345678-'' \<and> symbols_only ''12345678-'' \<and>
   space_puzzle ''12345678-'' =
     Inr ('' 1 2 3 '' @ [newline] @ '' 4 5 6 '' @ [newline] @ '' 7 8 -'') \<and>
   spaced_spec 3 ''12345678-'' = ''  1 2 3'' @ [newline] @ '' 4 5 6'' @ [newline] @ '' 7 8 -'' \<and>
   space_puzzle ''12345678-'' \<noteq> Inr (spaced_spec 3 ''12345678-'')"
  by code_simp

text \<open>
  C8. For a valid puzzle state and a non-blank symbol that does not occur in it, both
  \<open>is_legal_move\<close> and \<open>puzzle_with_move\<close> fail with the error of the tile lookup
  (\<open>ValueError\<close> of \<open>str.index\<close>); neither returns a boolean or a state.
\<close>

theorem absent_tile_lookup_fails:
  assumes "valid_puzzle puzzle" "c \<noteq> blank" "c \<notin> set puzzle"
  shows "is_legal_move puzzle [c] = Inl ValueError \<and>
         puzzle_with_move puzzle [c] = Inl ValueError"
proof -
  have b: "blank \<in> set puzzle" using assms(1) by (rule valid_puzzle_blank)
  show ?thesis
    using assms(2)
    by (simp add: is_legal_move_def puzzle_with_move_def str_index_present[OF b]
        str_index_absent[OF assms(3)] Let_def)
qed

theorem absent_tile_lookup_fails_witness:
  "valid_puzzle ''12345678-'' \<and> CHR ''9'' \<noteq> blank \<and> CHR ''9'' \<notin> set ''12345678-'' \<and>
   is_legal_move ''12345678-'' ''9'' = Inl ValueError \<and>
   puzzle_with_move ''12345678-'' ''9'' = Inl ValueError"
proof -
  have v: "valid_puzzle ''12345678-''" by (simp add: valid_puzzle_def blank_def)
  have nb: "CHR ''9'' \<noteq> blank" by (simp add: blank_def)
  have m: "CHR ''9'' \<notin> set ''12345678-''" by simp
  show ?thesis
    by (rule conjI[OF v conjI[OF nb conjI[OF m absent_tile_lookup_fails[OF v nb m]]]])
qed

text \<open>
  C9. For a valid puzzle state in which the tile symbol occurs more than once, with \<open>i\<close>
  its leftmost occurrence and \<open>j\<close> the blank: \<open>is_legal_move\<close> is the adjacency of
  \<open>i\<close> and \<open>j\<close>, and \<open>puzzle_with_move\<close> exchanges the blank with position \<open>i\<close>,
  leaving every other copy of the symbol where it was.
\<close>

theorem duplicate_tile_resolves_to_leftmost:
  assumes "valid_puzzle puzzle" "n * n = length puzzle" "c \<noteq> blank"
    and "1 < count_list puzzle c"
    and "i < length puzzle" "puzzle ! i = c" "\<forall>k<i. puzzle ! k \<noteq> c"
    and "j < length puzzle" "puzzle ! j = blank"
  shows "is_legal_move puzzle [c] = Inr (adjacent n i j) \<and>
         (\<exists>new. puzzle_with_move puzzle [c] = Inr new \<and>
            new = (puzzle[j := c])[i := blank] \<and>
            new ! i = blank \<and> new ! j = c \<and>
            (\<forall>k<length puzzle. k \<noteq> i \<and> puzzle ! k = c \<longrightarrow> new ! k = c))"
proof -
  have b: "blank \<in> set puzzle" using assms(1) by (rule valid_puzzle_blank)
  have m: "c \<in> set puzzle" using assms(5,6) nth_mem by blast
  have fi: "first_pos c puzzle = i" using assms(5,6,7) by (rule first_pos_unique)
  have fj: "first_pos blank puzzle = j" using assms(1,8,9) by (rule first_pos_blank_unique)
  have ne: "i \<noteq> j" using assms(3,6,9) by auto
  let ?new = "(puzzle[j := c])[i := blank]"
  have A: "is_legal_move puzzle [c] = Inr (adjacent n i j)"
    using is_legal_move_single[OF b m assms(3) assms(2)] by (simp only: fi fj)
  have B: "puzzle_with_move puzzle [c] = Inr ?new"
    using puzzle_with_move_single[OF b m assms(3)] by (simp only: fi fj)
  have C: "?new ! i = blank" using assms(5) by simp
  have D: "?new ! j = c" using assms(8) ne by simp
  have E: "\<forall>k<length puzzle. k \<noteq> i \<and> puzzle ! k = c \<longrightarrow> ?new ! k = c"
  proof (intro allI impI)
    fix k assume k: "k < length puzzle" "k \<noteq> i \<and> puzzle ! k = c"
    then have "k \<noteq> j" using assms(3,9) by auto
    with k show "?new ! k = c" by simp
  qed
  from A B C D E show ?thesis by blast
qed

theorem duplicate_tile_resolves_to_leftmost_witness:
  "valid_puzzle ''1-31'' \<and> (2::nat) * 2 = length ''1-31'' \<and> CHR ''1'' \<noteq> blank \<and>
   1 < count_list ''1-31'' (CHR ''1'') \<and>
   is_legal_move ''1-31'' ''1'' = Inr (adjacent 2 0 1) \<and> adjacent 2 0 1 \<and> adjacent 2 3 1 \<and>
   puzzle_with_move ''1-31'' ''1'' = Inr ''-131''"
proof -
  have v: "valid_puzzle ''1-31''" by (simp add: valid_puzzle_def blank_def)
  have n: "(2::nat) * 2 = length ''1-31''" by simp
  have nb: "CHR ''1'' \<noteq> blank" by (simp add: blank_def)
  have cnt: "1 < count_list ''1-31'' (CHR ''1'')" by simp
  have i: "0 < length ''1-31''" "''1-31'' ! 0 = CHR ''1''" "\<forall>k<0::nat. ''1-31'' ! k \<noteq> CHR ''1''"
    by simp_all
  have j: "1 < length ''1-31''" "''1-31'' ! 1 = blank" by (simp_all add: blank_def)
  note t = duplicate_tile_resolves_to_leftmost[OF v n nb cnt i j]
  have l: "is_legal_move ''1-31'' ''1'' = Inr (adjacent 2 0 1)" by (rule conjunct1[OF t])
  from conjunct2[OF t] have "puzzle_with_move ''1-31'' ''1'' = Inr ((''1-31''[1 := CHR ''1''])[0 := blank])"
    by blast
  then have p: "puzzle_with_move ''1-31'' ''1'' = Inr ''-131''" by (simp add: blank_def)
  have a: "adjacent 2 0 1" "adjacent 2 3 1" by (simp_all add: adjacent_def)
  show ?thesis
    by (rule conjI[OF v conjI[OF n conjI[OF nb conjI[OF cnt conjI[OF l conjI[OF a(1) conjI[OF a(2) p]]]]]]])
qed

text \<open>
  C10. For a valid puzzle state and a non-blank symbol that occurs in it, whatever
  \<open>is_legal_move\<close> answers (\<open>legal\<close> may be false), \<open>puzzle_with_move\<close> returns the
  state with the symbol and the blank exchanged, which differs from the input: the move is
  applied without any adjacency check, and no error is raised.
\<close>

theorem puzzle_with_move_ignores_legality:
  assumes "valid_puzzle puzzle" "c \<in> set puzzle" "c \<noteq> blank"
    and "is_legal_move puzzle [c] = Inr legal"
  shows "puzzle_with_move puzzle [c] =
           Inr ((puzzle[first_pos blank puzzle := c])[first_pos c puzzle := blank]) \<and>
         (puzzle[first_pos blank puzzle := c])[first_pos c puzzle := blank] \<noteq> puzzle"
proof -
  let ?i = "first_pos c puzzle" and ?j = "first_pos blank puzzle"
  have b: "blank \<in> set puzzle" using assms(1) by (rule valid_puzzle_blank)
  have i: "?i < length puzzle" using assms(2) by (rule first_pos_less)
  have "((puzzle[?j := c])[?i := blank]) ! ?i = blank" using i by simp
  moreover have "puzzle ! ?i = c" using assms(2) by (rule first_pos_nth)
  ultimately have "(puzzle[?j := c])[?i := blank] \<noteq> puzzle" using assms(3) by metis
  moreover have "puzzle_with_move puzzle [c] = Inr ((puzzle[?j := c])[?i := blank])"
    using b assms(2,3) by (rule puzzle_with_move_single)
  ultimately show ?thesis by simp
qed

theorem puzzle_with_move_ignores_legality_witness:
  "valid_puzzle ''12345678-'' \<and> CHR ''5'' \<in> set ''12345678-'' \<and> CHR ''5'' \<noteq> blank \<and>
   is_legal_move ''12345678-'' ''5'' = Inr False \<and>
   puzzle_with_move ''12345678-'' ''5'' = Inr ''1234-6785''"
proof -
  have v: "valid_puzzle ''12345678-''" by (simp add: valid_puzzle_def blank_def)
  have m: "CHR ''5'' \<in> set ''12345678-''" by simp
  have nb: "CHR ''5'' \<noteq> blank" by (simp add: blank_def)
  have l: "is_legal_move ''12345678-'' ''5'' = Inr False" by code_simp
  have i: "first_pos (CHR ''5'') ''12345678-'' = 4" by (simp add: first_pos_def)
  have j: "first_pos blank ''12345678-'' = 8" by (simp add: first_pos_def blank_def)
  have "puzzle_with_move ''12345678-'' ''5'' =
          Inr ((''12345678-''[first_pos blank ''12345678-'' := CHR ''5''])
                 [first_pos (CHR ''5'') ''12345678-'' := blank])"
    by (rule conjunct1[OF puzzle_with_move_ignores_legality[OF v m nb l]])
  then have p: "puzzle_with_move ''12345678-'' ''5'' = Inr ''1234-6785''"
    unfolding i j by (simp add: blank_def)
  show ?thesis by (rule conjI[OF v conjI[OF m conjI[OF nb conjI[OF l p]]]])
qed

end
